theory Spec2Isabelle
  imports Main
begin

section \<open>Values of the host language and of the date library\<close>

text \<open>
  The events of hubot-plan are plain JavaScript objects. The model keeps the shape of
  the source (file \<open>lib/event.js\<close>): one record per class, one function per method,
  the receiver passed explicitly and returned updated, every \<open>throw\<close> a value.

  A timestamp is a \<open>moment-timezone\<close> object. Only four of its operations are
  used by the event: \<open>valueOf()\<close> (milliseconds since the epoch), \<open>tz()\<close> (the
  name of the zone), the comparisons \<open>isBefore\<close>/\<open>isAfter\<close>, which compare
  the instants, and the constructor \<open>moment.tz(millis, zone)\<close>. A valid zoned
  moment is therefore the pair of its instant and its zone name.
\<close>

record moment =
  valueOf :: int
  tz :: string

definition moment_tz :: "int \<Rightarrow> string \<Rightarrow> moment" where
  "moment_tz millis zone_name = \<lparr>valueOf = millis, tz = zone_name\<rparr>"

definition isBefore :: "moment \<Rightarrow> moment \<Rightarrow> bool" where
  "isBefore a b = (valueOf a < valueOf b)"

definition isAfter :: "moment \<Rightarrow> moment \<Rightarrow> bool" where
  "isAfter a b = (valueOf a > valueOf b)"

text \<open>
  A JavaScript \<open>Set\<close> of strings iterates in insertion order, so it is a list
  without repetitions: \<open>add\<close> of a member changes nothing, \<open>add\<close> of a new
  value appends it, \<open>delete\<close> removes it, \<open>new Set(array)\<close> adds the
  elements of the array from left to right and \<open>Array.from(set)\<close> lists them.
\<close>

definition set_add :: "'a \<Rightarrow> 'a list \<Rightarrow> 'a list" where
  "set_add x s = (if x \<in> set s then s else s @ [x])"

definition set_delete :: "'a \<Rightarrow> 'a list \<Rightarrow> 'a list" where
  "set_delete x s = removeAll x s"

definition set_has :: "'a \<Rightarrow> 'a list \<Rightarrow> bool" where
  "set_has x s = (x \<in> set s)"

definition new_Set :: "'a list \<Rightarrow> 'a list" where
  "new_Set arr = foldl (\<lambda>s x. set_add x s) [] arr"

definition Array_from :: "'a list \<Rightarrow> 'a list" where
  "Array_from s = s"

text \<open>
  The four errors the event can end with. The first three are built by the functions
  \<open>buildInvalidProposalError\<close>, \<open>buildFinalizedEventError\<close> and
  \<open>buildUnfinalizedEventError\<close> of the module \<open>./errors\<close>; the fourth is the
  \<open>TypeError\<close> the language raises when a method is called on \<open>undefined\<close>.
\<close>

datatype error =
    InvalidProposalError
  | FinalizedEventError
  | UnfinalizedEventError
  | TypeError

type_synonym 'a result = "error + 'a"

section \<open>Proposal\<close>

record Proposal =
  ts :: moment
  accepted :: "string list"
  leading :: bool

definition new_Proposal :: "moment \<Rightarrow> Proposal" where
  "new_Proposal t = \<lparr>ts = t, accepted = [], leading = False\<rparr>"

definition date :: "Proposal \<Rightarrow> moment" where
  "date p = ts p"

definition yesCount :: "Proposal \<Rightarrow> nat" where
  "yesCount p = length (accepted p)"

definition isLeading :: "Proposal \<Rightarrow> bool" where
  "isLeading p = leading p"

definition yes :: "string \<Rightarrow> Proposal \<Rightarrow> Proposal" where
  "yes uid p = p\<lparr>accepted := set_add uid (accepted p)\<rparr>"

definition no :: "string \<Rightarrow> Proposal \<Rightarrow> Proposal" where
  "no uid p = p\<lparr>accepted := set_delete uid (accepted p)\<rparr>"


definition getAttendees :: "Proposal \<Rightarrow> string list" where
  "getAttendees p = Array_from (accepted p)"

definition markLeader :: "Proposal \<Rightarrow> Proposal" where
  "markLeader p = p\<lparr>leading := True\<rparr>"

definition clearLeader :: "Proposal \<Rightarrow> Proposal" where
  "clearLeader p = p\<lparr>leading := False\<rparr>"

record ProposalPayload =
  ts_s :: int
  zone_s :: string
  accepted_s :: "string list"

definition Proposal_serialize :: "Proposal \<Rightarrow> ProposalPayload" where
  "Proposal_serialize p =
     \<lparr>ts_s = valueOf (ts p), zone_s = tz (ts p), accepted_s = Array_from (accepted p)\<rparr>"

definition Proposal_deserialize :: "ProposalPayload \<Rightarrow> Proposal" where
  "Proposal_deserialize payload =
     (new_Proposal (moment_tz (ts_s payload) (zone_s payload)))
       \<lparr>accepted := new_Set (accepted_s payload)\<rparr>"

section \<open>Event\<close>

text \<open>
  \<open>proposals\<close> is a JavaScript array that \<open>delete\<close> makes sparse: a slot is a
  \<open>Proposal\<close> object or a hole (\<open>None\<close>), and the length never shrinks.

  \<open>earliest\<close> and \<open>latest\<close> hold \<open>null\<close> or a reference to a
  \<open>Proposal\<close> object, which the source compares by identity
  (\<open>this.earliest === this.proposals[index]\<close>) and reads only through
  \<open>date()\<close>. A \<open>Proposal\<close> is created by \<open>proposeDate\<close>, stored in one
  slot and never moved, and its \<open>ts\<close> is never assigned again; so a reference is
  modelled by the slot the object was created in together with its \<open>ts\<close>. The
  reference is identical to the content of slot \<open>i\<close> exactly when it was created in
  slot \<open>i\<close> and that slot still holds its object.
\<close>

type_synonym ProposalRef = "nat \<times> moment"

record Event =
  id_e :: string
  name :: string
  proposals :: "Proposal option list"
  invitees :: "string list"
  responses :: "string list"
  finalized :: "nat option"
  earliest :: "ProposalRef option"
  latest :: "ProposalRef option"

definition new_Event :: "string \<Rightarrow> string \<Rightarrow> Event" where
  "new_Event i n =
     \<lparr>id_e = i, name = n, proposals = [], invitees = [], responses = [],
      finalized = None, earliest = None, latest = None\<rparr>"

definition getID :: "Event \<Rightarrow> string" where
  "getID e = id_e e"

definition setName :: "string \<Rightarrow> Event \<Rightarrow> Event" where
  "setName n e = e\<lparr>name := n\<rparr>"

definition getName :: "Event \<Rightarrow> string" where
  "getName e = name e"

text \<open>
  \<open>this.proposals[index]\<close>: \<open>undefined\<close> at a hole and beyond the length.
  An index is a natural number, as \<open>proposeDate\<close> returns it.
\<close>

definition slot :: "Event \<Rightarrow> nat \<Rightarrow> Proposal option" where
  "slot e index = (if index < length (proposals e) then proposals e ! index else None)"

definition isFinalized :: "Event \<Rightarrow> bool" where
  "isFinalized e = (finalized e \<noteq> None)"

definition ref_date :: "ProposalRef \<Rightarrow> moment" where
  "ref_date r = snd r"

definition proposeDate :: "moment \<Rightarrow> Event \<Rightarrow> nat result \<times> Event" where
  "proposeDate t e =
     (if isFinalized e then (Inl FinalizedEventError, e)
      else
        let p = new_Proposal t;
            r = (length (proposals e), date p);
            e1 = e\<lparr>proposals := proposals e @ [Some p]\<rparr>;
            e2 = (case earliest e1 of
                    None \<Rightarrow> e1\<lparr>earliest := Some r\<rparr>
                  | Some m \<Rightarrow> if isBefore (date p) (ref_date m)
                             then e1\<lparr>earliest := Some r\<rparr> else e1);
            e3 = (case latest e2 of
                    None \<Rightarrow> e2\<lparr>latest := Some r\<rparr>
                  | Some m \<Rightarrow> if isAfter (date p) (ref_date m)
                             then e2\<lparr>latest := Some r\<rparr> else e2)
        in (Inr (length (proposals e3) - 1), e3))"

text \<open>
  The two callbacks of \<open>unpropose\<close>, as \<open>Array.prototype.reduce\<close> calls them:
  with the accumulator, the element and its index, once per slot that is not a hole.
\<close>

definition min_callback ::
  "nat \<Rightarrow> ProposalRef option \<Rightarrow> nat \<times> Proposal option \<Rightarrow> ProposalRef option" where
  "min_callback index mn x =
     (case snd x of
        None \<Rightarrow> mn
      | Some p \<Rightarrow>
          if fst x = index then mn
          else (case mn of
                  None \<Rightarrow> Some (fst x, date p)
                | Some m \<Rightarrow> if isBefore (date p) (ref_date m) then Some (fst x, date p) else mn))"

definition max_callback ::
  "nat \<Rightarrow> ProposalRef option \<Rightarrow> nat \<times> Proposal option \<Rightarrow> ProposalRef option" where
  "max_callback index mx x =
     (case snd x of
        None \<Rightarrow> mx
      | Some p \<Rightarrow>
          if fst x = index then mx
          else (case mx of
                  None \<Rightarrow> Some (fst x, date p)
                | Some m \<Rightarrow> if isAfter (date p) (ref_date m) then Some (fst x, date p) else mx))"

definition same_object :: "ProposalRef option \<Rightarrow> Event \<Rightarrow> nat \<Rightarrow> bool" where
  "same_object r e index =
     (case r of None \<Rightarrow> False | Some m \<Rightarrow> fst m = index \<and> slot e index \<noteq> None)"

text \<open>
  \<open>delete this.proposals[index]\<close> empties the slot and keeps the length; beyond the
  length it does nothing.
\<close>

definition delete_slot :: "nat \<Rightarrow> Proposal option list \<Rightarrow> Proposal option list" where
  "delete_slot index ps = (if index < length ps then ps[index := None] else ps)"

definition unpropose :: "nat \<Rightarrow> Event \<Rightarrow> Event" where
  "unpropose index e =
     (let e1 = (if same_object (earliest e) e index
                then e\<lparr>earliest := foldl (min_callback index) None (enumerate 0 (proposals e))\<rparr>
                else e);
          e2 = (if same_object (latest e1) e1 index
                then e1\<lparr>latest := foldl (max_callback index) None (enumerate 0 (proposals e1))\<rparr>
                else e1);
          e3 = e2\<lparr>proposals := delete_slot index (proposals e2)\<rparr>
      in if finalized e3 = Some index then e3\<lparr>finalized := None\<rparr> else e3)"


definition proposal :: "Event \<Rightarrow> nat \<Rightarrow> Proposal result" where
  "proposal e index =
     (case slot e index of None \<Rightarrow> Inl InvalidProposalError | Some p \<Rightarrow> Inr p)"

definition invite :: "string \<Rightarrow> Event \<Rightarrow> Event" where
  "invite uid e = e\<lparr>invitees := set_add uid (invitees e)\<rparr>"

definition uninvite :: "string \<Rightarrow> Event \<Rightarrow> Event" where
  "uninvite uid e = e\<lparr>invitees := set_delete uid (invitees e)\<rparr>"

definition getInvitees :: "Event \<Rightarrow> string list" where
  "getInvitees e = Array_from (invitees e)"

text \<open>
  \<open>remarkLeader\<close> walks the array twice with \<open>for ... of\<close>. The array iterator
  visits every index below the length and yields \<open>undefined\<close> at a hole, where the
  call \<open>proposal.yesCount()\<close> raises a \<open>TypeError\<close>.
\<close>

fun leadingCount_loop :: "Proposal option list \<Rightarrow> nat \<Rightarrow> nat result" where
  "leadingCount_loop [] leadingCount = Inr leadingCount"
| "leadingCount_loop (None # ps) leadingCount = Inl TypeError"
| "leadingCount_loop (Some p # ps) leadingCount =
     leadingCount_loop ps (if yesCount p > leadingCount then yesCount p else leadingCount)"

fun mark_loop :: "nat \<Rightarrow> Proposal option list \<Rightarrow> error option \<times> Proposal option list" where
  "mark_loop leadingCount [] = (None, [])"
| "mark_loop leadingCount (None # ps) = (Some TypeError, None # ps)"
| "mark_loop leadingCount (Some p # ps) =
     (let p' = (if yesCount p = leadingCount then markLeader p else clearLeader p);
          rest = mark_loop leadingCount ps
      in (fst rest, Some p' # snd rest))"

definition remarkLeader :: "Event \<Rightarrow> unit result \<times> Event" where
  "remarkLeader e =
     (case leadingCount_loop (proposals e) 2 of
        Inl err \<Rightarrow> (Inl err, e)
      | Inr leadingCount \<Rightarrow>
          let marked = mark_loop leadingCount (proposals e);
              e1 = e\<lparr>proposals := snd marked\<rparr>
          in (case fst marked of Some err \<Rightarrow> (Inl err, e1) | None \<Rightarrow> (Inr (), e1)))"

text \<open>
  The \<open>Proposal\<close> that \<open>proposal(index)\<close> returns is the object in the slot, so
  \<open>yes\<close> and \<open>no\<close> on it update that slot.
\<close>

definition acceptProposal :: "string \<Rightarrow> nat \<Rightarrow> Event \<Rightarrow> unit result \<times> Event" where
  "acceptProposal uid proposalIndex e =
     (let e1 = e\<lparr>invitees := set_add uid (invitees e)\<rparr>;
          e2 = e1\<lparr>responses := set_add uid (responses e1)\<rparr>
      in case proposal e2 proposalIndex of
           Inl err \<Rightarrow> (Inl err, e2)
         | Inr p \<Rightarrow>
             remarkLeader (e2\<lparr>proposals := (proposals e2)[proposalIndex := Some (yes uid p)]\<rparr>))"

definition rejectProposal :: "string \<Rightarrow> nat \<Rightarrow> Event \<Rightarrow> unit result \<times> Event" where
  "rejectProposal uid proposalIndex e =
     (let e1 = e\<lparr>responses := set_add uid (responses e)\<rparr>
      in case proposal e1 proposalIndex of
           Inl err \<Rightarrow> (Inl err, e1)
         | Inr p \<Rightarrow>
             remarkLeader (e1\<lparr>proposals := (proposals e1)[proposalIndex := Some (no uid p)]\<rparr>))"

definition responded :: "string \<Rightarrow> Event \<Rightarrow> Event" where
  "responded uid e = e\<lparr>responses := set_add uid (responses e)\<rparr>"

definition finalize :: "nat \<Rightarrow> Event \<Rightarrow> unit result \<times> Event" where
  "finalize index e =
     (if slot e index = None then (Inl InvalidProposalError, e)
      else if isFinalized e then (Inl FinalizedEventError, e)
      else (Inr (), e\<lparr>finalized := Some index\<rparr>))"

definition finalProposal :: "Event \<Rightarrow> Proposal result" where
  "finalProposal e =
     (case finalized e of
        None \<Rightarrow> Inl UnfinalizedEventError
      | Some index \<Rightarrow> proposal e index)"

definition unfinalize :: "Event \<Rightarrow> Event" where
  "unfinalize e = e\<lparr>finalized := None\<rparr>"

definition earliestComparisonDate :: "Event \<Rightarrow> moment option result" where
  "earliestComparisonDate e =
     (if isFinalized e then
        (case finalProposal e of Inl err \<Rightarrow> Inl err | Inr p \<Rightarrow> Inr (Some (date p)))
      else (case earliest e of Some m \<Rightarrow> Inr (Some (ref_date m)) | None \<Rightarrow> Inr None))"

definition latestComparisonDate :: "Event \<Rightarrow> moment option result" where
  "latestComparisonDate e =
     (if isFinalized e then
        (case finalProposal e of Inl err \<Rightarrow> Inl err | Inr p \<Rightarrow> Inr (Some (date p)))
      else (case latest e of Some m \<Rightarrow> Inr (Some (ref_date m)) | None \<Rightarrow> Inr None))"

record EventPayload =
  id_s :: string
  name_s :: string
  invitees_s :: "string list"
  responses_s :: "string list"
  finalized_s :: "nat option"
  proposals_s :: "ProposalPayload option list"

text \<open>\<open>Array.prototype.map\<close> skips the holes and keeps them in its result.\<close>

definition serialize :: "Event \<Rightarrow> EventPayload" where
  "serialize e =
     \<lparr>id_s = id_e e, name_s = name e,
      invitees_s = Array_from (invitees e),
      responses_s = Array_from (responses e),
      finalized_s = finalized e,
      proposals_s = map (map_option Proposal_serialize) (proposals e)\<rparr>"

definition deserialize :: "EventPayload \<Rightarrow> Event" where
  "deserialize payload =
     (new_Event (id_s payload) (name_s payload))
       \<lparr>invitees := new_Set (invitees_s payload),
        responses := new_Set (responses_s payload),
        proposals := map (map_option Proposal_deserialize) (proposals_s payload),
        finalized := finalized_s payload\<rparr>"

section \<open>Sequences of calls\<close>

text \<open>
  A caller holds one event and calls its methods one after the other; a call that throws
  leaves the event as it was at the \<open>throw\<close>, and the caller goes on with it.
\<close>

datatype call =
    SetName string
  | ProposeDate moment
  | Unpropose nat
  | Invite string
  | Uninvite string
  | AcceptProposal string nat
  | RejectProposal string nat
  | Responded string
  | Finalize nat
  | Unfinalize

fun exec :: "Event \<Rightarrow> call \<Rightarrow> Event" where
  "exec e (SetName n) = setName n e"
| "exec e (ProposeDate t) = snd (proposeDate t e)"
| "exec e (Unpropose index) = unpropose index e"
| "exec e (Invite uid) = invite uid e"
| "exec e (Uninvite uid) = uninvite uid e"
| "exec e (AcceptProposal uid index) = snd (acceptProposal uid index e)"
| "exec e (RejectProposal uid index) = snd (rejectProposal uid index e)"
| "exec e (Responded uid) = responded uid e"
| "exec e (Finalize index) = snd (finalize index e)"
| "exec e (Unfinalize) = unfinalize e"

definition run :: "Event \<Rightarrow> call list \<Rightarrow> Event" where
  "run e cs = foldl exec e cs"

section \<open>Properties of an event\<close>

text \<open>The proposals of the live slots, in index order.\<close>

definition live_proposals :: "Event \<Rightarrow> Proposal list" where
  "live_proposals e = [p. Some p \<leftarrow> proposals e]"

text \<open>
  \<open>leaders_marked least e\<close>: a live proposal of \<open>e\<close> is marked leading exactly
  when no live proposal has more votes than it has and it has at least \<open>least\<close>
  votes.
\<close>

definition leaders_marked :: "nat \<Rightarrow> Event \<Rightarrow> bool" where
  "leaders_marked least e =
     list_all (\<lambda>p. isLeading p =
                 (list_all (\<lambda>q. yesCount q \<le> yesCount p) (live_proposals e)
                  \<and> least \<le> yesCount p))
       (live_proposals e)"

fun is_vote :: "call \<Rightarrow> bool" where
  "is_vote (AcceptProposal uid index) = True"
| "is_vote (RejectProposal uid index) = True"
| "is_vote _ = False"

text \<open>A vote on a live slot of \<open>e\<close>.\<close>

fun names_live :: "Event \<Rightarrow> call \<Rightarrow> bool" where
  "names_live e (AcceptProposal uid index) = (slot e index \<noteq> None)"
| "names_live e (RejectProposal uid index) = (slot e index \<noteq> None)"
| "names_live e _ = False"

text \<open>
  The timestamps of the slots, and what the event keeps true of its caches: a cached
  reference is \<open>null\<close> only when no slot is live, it refers to a live slot whose
  timestamp it carries, no live proposal is earlier (later) than the \<open>earliest\<close>
  (\<open>latest\<close>) one, and \<open>finalized\<close> is absent or the index of a live slot.
\<close>

definition dates :: "Event \<Rightarrow> moment option list" where
  "dates e = map (map_option date) (proposals e)"

definition earliest_ok :: "ProposalRef option \<Rightarrow> moment option list \<Rightarrow> bool" where
  "earliest_ok r ds =
     (case r of
        None \<Rightarrow> (\<forall>j < length ds. ds ! j = None)
      | Some m \<Rightarrow> fst m < length ds \<and> ds ! fst m = Some (snd m) \<and>
                 (\<forall>j < length ds. \<forall>d. ds ! j = Some d \<longrightarrow> valueOf (snd m) \<le> valueOf d))"

definition latest_ok :: "ProposalRef option \<Rightarrow> moment option list \<Rightarrow> bool" where
  "latest_ok r ds =
     (case r of
        None \<Rightarrow> (\<forall>j < length ds. ds ! j = None)
      | Some m \<Rightarrow> fst m < length ds \<and> ds ! fst m = Some (snd m) \<and>
                 (\<forall>j < length ds. \<forall>d. ds ! j = Some d \<longrightarrow> valueOf d \<le> valueOf (snd m)))"

definition finalized_ok :: "nat option \<Rightarrow> moment option list \<Rightarrow> bool" where
  "finalized_ok f ds = (case f of None \<Rightarrow> True | Some k \<Rightarrow> k < length ds \<and> ds ! k \<noteq> None)"

definition caches_ok :: "Event \<Rightarrow> bool" where
  "caches_ok e =
     (earliest_ok (earliest e) (dates e) \<and> latest_ok (latest e) (dates e) \<and>
      finalized_ok (finalized e) (dates e))"

section \<open>Basic facts\<close>

lemma slot_simps [simp]:
  "slot (e\<lparr>invitees := a\<rparr>) i = slot e i"
  "slot (e\<lparr>responses := b\<rparr>) i = slot e i"
  "slot (e\<lparr>finalized := c\<rparr>) i = slot e i"
  "slot (e\<lparr>earliest := d\<rparr>) i = slot e i"
  "slot (e\<lparr>latest := d\<rparr>) i = slot e i"
  "slot (e\<lparr>name := n\<rparr>) i = slot e i"
  by (simp_all add: slot_def)

lemma acceptProposal_invalid:
  "slot e i = None \<Longrightarrow>
   acceptProposal uid i e =
     (Inl InvalidProposalError,
      e\<lparr>invitees := set_add uid (invitees e), responses := set_add uid (responses e)\<rparr>)"
  by (simp add: acceptProposal_def proposal_def Let_def)

lemma rejectProposal_invalid:
  "slot e i = None \<Longrightarrow>
   rejectProposal uid i e =
     (Inl InvalidProposalError, e\<lparr>responses := set_add uid (responses e)\<rparr>)"
  by (simp add: rejectProposal_def proposal_def Let_def)

lemma leadingCount_loop_hole: "None \<in> set ps \<Longrightarrow> leadingCount_loop ps c = Inl TypeError"
  by (induction ps c rule: leadingCount_loop.induct) auto

lemma remarkLeader_hole: "None \<in> set (proposals e) \<Longrightarrow> remarkLeader e = (Inl TypeError, e)"
  by (simp add: remarkLeader_def leadingCount_loop_hole)

lemma hole_survives_update:
  assumes "None \<in> set ps" and "i < length ps" and "ps ! i = Some p"
  shows "None \<in> set (ps[i := Some q])"
proof -
  from assms(1) obtain j where j: "j < length ps" "ps ! j = None"
    by (auto simp: in_set_conv_nth)
  with assms(3) have "j \<noteq> i" by auto
  with j have "ps[i := Some q] ! j = None" by simp
  with j(1) show ?thesis by (metis length_list_update nth_mem)
qed

text \<open>
  Whenever the array has a hole, a vote on a live slot ends with the \<open>TypeError\<close> of
  \<open>remarkLeader\<close>.
\<close>

lemma vote_with_hole_raises:
  assumes "None \<in> set (proposals e)" and "slot e i \<noteq> None"
  shows "fst (acceptProposal uid i e) = Inl TypeError \<and>
         fst (rejectProposal uid i e) = Inl TypeError"
proof -
  from assms(2) obtain p where p: "i < length (proposals e)" "proposals e ! i = Some p"
    by (auto simp: slot_def split: if_splits)
  then have s: "slot e i = Some p" by (simp add: slot_def)
  from hole_survives_update [OF assms(1) p]
  have "None \<in> set ((proposals e)[i := Some (yes uid p)])"
    "None \<in> set ((proposals e)[i := Some (no uid p)])" by simp_all
  then show ?thesis
    using s
    by (simp add: acceptProposal_def rejectProposal_def proposal_def Let_def remarkLeader_hole)
qed

section \<open>Voting on an event with a removed proposal\<close>

text \<open>
  Claim C2 says that on an event with a removed slot and a live proposal, a vote on the
  live proposal succeeds without an error. The code does not: after
  \<open>proposeDate\<close> twice and \<open>unpropose(0)\<close>, both \<open>acceptProposal('a', 1)\<close>
  and \<open>rejectProposal('a', 1)\<close> end with the \<open>TypeError\<close> of
  \<open>remarkLeader\<close>, whose \<open>for ... of\<close> reaches the hole in slot 0.
\<close>

theorem vote_beside_removed_slot_raises:
  "fst (acceptProposal ''a'' 1
     (run (new_Event ''E'' ''n'')
        [ProposeDate (moment_tz 100 ''UTC''), ProposeDate (moment_tz 200 ''UTC''), Unpropose 0]))
   = Inl TypeError
  \<and> fst (rejectProposal ''a'' 1
     (run (new_Event ''E'' ''n'')
        [ProposeDate (moment_tz 100 ''UTC''), ProposeDate (moment_tz 200 ''UTC''), Unpropose 0]))
   = Inl TypeError"
  by code_simp

section \<open>Voting on an index that is not live\<close>

text \<open>
  Claim C3 says that a vote on an index that is not a live slot raises the invalid
  proposal error and leaves the whole event unchanged, the invitees and the responses
  in particular. The error is the one claimed, but the code has already added the
  voter: on a new event \<open>acceptProposal('u', 0)\<close> leaves \<open>u\<close> in both
  \<open>invitees\<close> and \<open>responses\<close>, and \<open>rejectProposal('u', 0)\<close> leaves
  \<open>u\<close> in \<open>responses\<close>.
\<close>

theorem failed_vote_changes_rosters:
  "acceptProposal ''u'' 0 (new_Event ''E'' ''n'') =
     (Inl InvalidProposalError,
      (new_Event ''E'' ''n'')\<lparr>invitees := [''u''], responses := [''u'']\<rparr>)
   \<and> rejectProposal ''u'' 0 (new_Event ''E'' ''n'') =
     (Inl InvalidProposalError, (new_Event ''E'' ''n'')\<lparr>responses := [''u'']\<rparr>)"
  by (simp add: acceptProposal_def rejectProposal_def proposal_def slot_def new_Event_def
      set_add_def)

section \<open>Finalizing\<close>

text \<open>
  Claim C6 says that on a finalized event \<open>finalize(i)\<close> fails with the
  already-finalized error whatever \<open>i\<close> is. The code looks at the index first: on
  an event finalized at its only proposal, \<open>finalize(5)\<close> fails with the invalid
  proposal error.
\<close>

theorem finalize_finalized_invalid_index:
  "isFinalized (run (new_Event ''E'' ''n'') [ProposeDate (moment_tz 100 ''UTC''), Finalize 0])
   \<and> fst (finalize 5
        (run (new_Event ''E'' ''n'') [ProposeDate (moment_tz 100 ''UTC''), Finalize 0]))
     = Inl InvalidProposalError"
  by code_simp

text \<open>
  Claim C6 as amended: \<open>finalize(i)\<close> never succeeds on a finalized event; it fails
  with the invalid proposal error when \<open>i\<close> is not a live proposal, finalized or
  not, with the finalized-event error (\<open>buildFinalizedEventError\<close>) when \<open>i\<close>
  is live and the event is finalized, and succeeds on an unfinalized event with a live
  \<open>i\<close>, setting \<open>finalized = i\<close> and nothing else. A failed call changes
  nothing.
\<close>

theorem finalize_outcome:
  "(slot e i = None \<longrightarrow> finalize i e = (Inl InvalidProposalError, e)) \<and>
   (slot e i \<noteq> None \<and> isFinalized e \<longrightarrow> finalize i e = (Inl FinalizedEventError, e)) \<and>
   (slot e i \<noteq> None \<and> \<not> isFinalized e \<longrightarrow>
      finalize i e = (Inr (), e\<lparr>finalized := Some i\<rparr>))"
  by (simp add: finalize_def)

theorem finalize_outcome_witness:
  "finalize 1
     (run (new_Event ''E'' ''n'')
        [ProposeDate (moment_tz 100 ''UTC''), ProposeDate (moment_tz 200 ''UTC''), Finalize 0])
   = (Inl FinalizedEventError,
      run (new_Event ''E'' ''n'')
        [ProposeDate (moment_tz 100 ''UTC''), ProposeDate (moment_tz 200 ''UTC''), Finalize 0])"
  using finalize_outcome [of "run (new_Event ''E'' ''n'')
        [ProposeDate (moment_tz 100 ''UTC''), ProposeDate (moment_tz 200 ''UTC''), Finalize 0]" 1]
  by code_simp

lemma remarkLeader_frame [simp]:
  "invitees (snd (remarkLeader e)) = invitees e"
  "responses (snd (remarkLeader e)) = responses e"
  "finalized (snd (remarkLeader e)) = finalized e"
  "earliest (snd (remarkLeader e)) = earliest e"
  "latest (snd (remarkLeader e)) = latest e"
  "id_e (snd (remarkLeader e)) = id_e e"
  "name (snd (remarkLeader e)) = name e"
  by (simp_all add: remarkLeader_def Let_def split: sum.splits option.splits)








lemma proposals_unpropose: "proposals (unpropose i e) = delete_slot i (proposals e)"
  by (simp add: unpropose_def Let_def)

lemma slot_unpropose: "slot (unpropose i e) j = (if j = i then None else slot e j)"
  by (simp add: slot_def proposals_unpropose delete_slot_def)

lemma set_new_Set_aux: "set (foldl (\<lambda>s x. set_add x s) acc xs) = set acc \<union> set xs"
  by (induction xs arbitrary: acc) (auto simp: set_add_def)

lemma set_new_Set [simp]: "set (new_Set xs) = set xs"
  by (simp add: new_Set_def set_new_Set_aux)

lemma new_Set_distinct_aux:
  "distinct (acc @ xs) \<Longrightarrow> foldl (\<lambda>s x. set_add x s) acc xs = acc @ xs"
  by (induction xs arbitrary: acc) (auto simp: set_add_def)

lemma new_Set_Array_from: "distinct s \<Longrightarrow> new_Set (Array_from s) = s"
  using new_Set_distinct_aux [of "[]" s] by (simp add: new_Set_def Array_from_def)



section \<open>Rosters after a vote\<close>

text \<open>
  Claim C8: a successful \<open>acceptProposal(uid, i)\<close> adds \<open>uid\<close> to the invitees
  and to the responses; a successful \<open>rejectProposal(uid, i)\<close> adds \<open>uid\<close> to
  the responses and leaves the invitees as they were, so that a uid who was never
  invited can reject.
\<close>

theorem vote_rosters:
  "(fst (acceptProposal uid i e) = Inr () \<longrightarrow>
      invitees (snd (acceptProposal uid i e)) = set_add uid (invitees e) \<and>
      responses (snd (acceptProposal uid i e)) = set_add uid (responses e) \<and>
      set_has uid (invitees (snd (acceptProposal uid i e))) \<and>
      set_has uid (responses (snd (acceptProposal uid i e)))) \<and>
   (fst (rejectProposal uid i e) = Inr () \<longrightarrow>
      invitees (snd (rejectProposal uid i e)) = invitees e \<and>
      responses (snd (rejectProposal uid i e)) = set_add uid (responses e) \<and>
      set_has uid (responses (snd (rejectProposal uid i e))))"
  by (simp add: acceptProposal_def rejectProposal_def Let_def set_has_def set_add_def
      split: sum.splits)

theorem vote_rosters_witness:
  "fst (acceptProposal ''u'' 0
          (run (new_Event ''E'' ''n'') [ProposeDate (moment_tz 100 ''UTC'')])) = Inr () \<and>
   invitees (snd (acceptProposal ''u'' 0
          (run (new_Event ''E'' ''n'') [ProposeDate (moment_tz 100 ''UTC'')]))) = [''u''] \<and>
   responses (snd (acceptProposal ''u'' 0
          (run (new_Event ''E'' ''n'') [ProposeDate (moment_tz 100 ''UTC'')]))) = [''u''] \<and>
   fst (rejectProposal ''u'' 0
          (run (new_Event ''E'' ''n'') [ProposeDate (moment_tz 100 ''UTC'')])) = Inr () \<and>
   invitees (snd (rejectProposal ''u'' 0
          (run (new_Event ''E'' ''n'') [ProposeDate (moment_tz 100 ''UTC'')]))) = [] \<and>
   responses (snd (rejectProposal ''u'' 0
          (run (new_Event ''E'' ''n'') [ProposeDate (moment_tz 100 ''UTC'')]))) = [''u'']"
  using vote_rosters [of "''u''" 0
          "run (new_Event ''E'' ''n'') [ProposeDate (moment_tz 100 ''UTC'')]"]
  by code_simp

section \<open>Removing a proposal and the leading flags\<close>

text \<open>
  Claim C10: \<open>unpropose(i)\<close> does not recompute the leaders. It empties slot
  \<open>i\<close> and leaves every other slot \<open>j\<close> exactly as it was, so the
  \<open>isLeading\<close> flag of every surviving proposal is the one it had before the call,
  also when the proposal removed was the one with the most votes.
\<close>

theorem unpropose_keeps_leading_flags:
  "length (proposals (unpropose i e)) = length (proposals e) \<and>
   slot (unpropose i e) i = None \<and>
   (j \<noteq> i \<longrightarrow>
      slot (unpropose i e) j = slot e j \<and>
      map_option isLeading (slot (unpropose i e) j) = map_option isLeading (slot e j))"
  by (simp add: slot_unpropose) (simp add: proposals_unpropose delete_slot_def)

text \<open>
  Proposal 0 has three votes and leads, proposal 1 has two. After \<open>unpropose(0)\<close>
  proposal 1 holds the most votes of the live proposals and is still not leading.
\<close>

theorem unpropose_keeps_leading_flags_witness:
  "map_option isLeading (slot (run (new_Event ''E'' ''n'')
        [ProposeDate (moment_tz 100 ''UTC''), ProposeDate (moment_tz 200 ''UTC''),
         AcceptProposal ''a'' 0, AcceptProposal ''b'' 0, AcceptProposal ''c'' 0,
         AcceptProposal ''a'' 1, AcceptProposal ''b'' 1]) 1) = Some False \<and>
   map_option isLeading (slot (unpropose 0 (run (new_Event ''E'' ''n'')
        [ProposeDate (moment_tz 100 ''UTC''), ProposeDate (moment_tz 200 ''UTC''),
         AcceptProposal ''a'' 0, AcceptProposal ''b'' 0, AcceptProposal ''c'' 0,
         AcceptProposal ''a'' 1, AcceptProposal ''b'' 1])) 1) = Some False \<and>
   map_option yesCount (slot (unpropose 0 (run (new_Event ''E'' ''n'')
        [ProposeDate (moment_tz 100 ''UTC''), ProposeDate (moment_tz 200 ''UTC''),
         AcceptProposal ''a'' 0, AcceptProposal ''b'' 0, AcceptProposal ''c'' 0,
         AcceptProposal ''a'' 1, AcceptProposal ''b'' 1])) 1) = Some 2"
  using unpropose_keeps_leading_flags [of 0 "run (new_Event ''E'' ''n'')
        [ProposeDate (moment_tz 100 ''UTC''), ProposeDate (moment_tz 200 ''UTC''),
         AcceptProposal ''a'' 0, AcceptProposal ''b'' 0, AcceptProposal ''c'' 0,
         AcceptProposal ''a'' 1, AcceptProposal ''b'' 1]" 1]
  by code_simp

section \<open>Serialization\<close>


text \<open>
  The payload has no field for the \<open>earliest\<close> and \<open>latest\<close> references nor
  for the leading flags, and \<open>deserialize\<close> does not recompute them: they come
  back as the constructors set them.
\<close>

lemma Proposal_deserialize_leading: "\<not> isLeading (Proposal_deserialize payload)"
  by (simp add: Proposal_deserialize_def new_Proposal_def isLeading_def)

lemma deserialize_caches:
  "earliest (deserialize payload) = None \<and> latest (deserialize payload) = None \<and>
   list_all (\<lambda>p. \<not> isLeading p) (live_proposals (deserialize payload))"
proof -
  have "list_all (\<lambda>p. \<not> isLeading p)
          [p. Some p \<leftarrow> map (map_option Proposal_deserialize) ps]" for ps
    by (induction ps) (auto simp: Proposal_deserialize_leading split: option.splits)
  from this [of "proposals_s payload"] show ?thesis
    by (simp add: deserialize_def new_Event_def live_proposals_def)
qed

section \<open>Leaders after a vote\<close>

lemma set_live_proposals: "set (live_proposals e) = {p. Some p \<in> set (proposals e)}"
  by (auto simp: live_proposals_def split: option.splits)

lemma leadingCount_loop_total:
  "None \<notin> set ps \<Longrightarrow> \<exists>m. leadingCount_loop ps c = Inr m"
  by (induction ps c rule: leadingCount_loop.induct) auto

lemma leadingCount_loop_bounds:
  "leadingCount_loop ps c = Inr m \<Longrightarrow>
     c \<le> m \<and> (\<forall>p. Some p \<in> set ps \<longrightarrow> yesCount p \<le> m) \<and>
     (m = c \<or> (\<exists>p. Some p \<in> set ps \<and> yesCount p = m))"
proof (induction ps c rule: leadingCount_loop.induct)
  case (3 p ps c)
  let ?c = "if c < yesCount p then yesCount p else c"
  from 3 have ih: "?c \<le> m \<and> (\<forall>q. Some q \<in> set ps \<longrightarrow> yesCount q \<le> m) \<and>
     (m = ?c \<or> (\<exists>q. Some q \<in> set ps \<and> yesCount q = m))"
    by simp
  then show ?case by (auto split: if_splits)
qed simp_all

lemma mark_loop_no_hole:
  "None \<notin> set ps \<Longrightarrow>
   mark_loop c ps =
     (None, map (map_option (\<lambda>p. if yesCount p = c then markLeader p else clearLeader p)) ps)"
  by (induction c ps rule: mark_loop.induct) (auto simp: Let_def)

lemma yesCount_mark [simp]:
  "yesCount (markLeader p) = yesCount p" "yesCount (clearLeader p) = yesCount p"
  "isLeading (markLeader p)" "\<not> isLeading (clearLeader p)"
  by (simp_all add: yesCount_def markLeader_def clearLeader_def isLeading_def)

lemma remarkLeader_no_hole:
  assumes "None \<notin> set (proposals e)"
  shows "\<exists>m. leadingCount_loop (proposals e) 2 = Inr m \<and>
           remarkLeader e =
             (Inr (), e\<lparr>proposals :=
                map (map_option (\<lambda>p. if yesCount p = m then markLeader p else clearLeader p))
                  (proposals e)\<rparr>)"
proof -
  from leadingCount_loop_total [OF assms] obtain m
    where m: "leadingCount_loop (proposals e) 2 = Inr m" by blast
  show ?thesis
    using m by (simp add: remarkLeader_def mark_loop_no_hole [OF assms] Let_def)
qed

lemma live_map_option:
  "[p. Some p \<leftarrow> map (map_option f) ps] = map f [p. Some p \<leftarrow> ps]"
  by (induction ps) (auto split: option.splits)

lemma remarkLeader_marks:
  assumes "None \<notin> set (proposals e)"
  shows "leaders_marked 2 (snd (remarkLeader e))"
proof -
  from remarkLeader_no_hole [OF assms] obtain m
    where m: "leadingCount_loop (proposals e) 2 = Inr m"
      and r: "remarkLeader e = (Inr (), e\<lparr>proposals :=
                map (map_option (\<lambda>p. if yesCount p = m then markLeader p else clearLeader p))
                  (proposals e)\<rparr>)"
    by blast
  define f where "f = (\<lambda>p. if yesCount p = m then markLeader p else clearLeader p)"
  from leadingCount_loop_bounds [OF m]
  have b: "2 \<le> m" "\<And>p. p \<in> set (live_proposals e) \<Longrightarrow> yesCount p \<le> m"
    "m = 2 \<or> (\<exists>p. p \<in> set (live_proposals e) \<and> yesCount p = m)"
    unfolding set_live_proposals by blast+
  have live: "live_proposals (snd (remarkLeader e)) = map f (live_proposals e)"
    using live_map_option [of f "proposals e"] by (simp add: r live_proposals_def f_def)
  have yc: "\<And>p. yesCount (f p) = yesCount p" by (simp add: f_def)
  have "isLeading (f p) =
          ((\<forall>q \<in> set (live_proposals e). yesCount q \<le> yesCount p) \<and> 2 \<le> yesCount p)"
    if p: "p \<in> set (live_proposals e)" for p
  proof (cases "yesCount p = m")
    case True
    then show ?thesis using b by (auto simp: f_def)
  next
    case False
    with b(2) [OF p] have lt: "yesCount p < m" by simp
    show ?thesis
    proof (cases "m = 2")
      case True
      with lt False show ?thesis by (simp add: f_def)
    next
      case False
      with b(3) obtain q where "q \<in> set (live_proposals e)" "yesCount q = m" by blast
      with lt \<open>yesCount p \<noteq> m\<close> show ?thesis by (auto simp: f_def not_le [symmetric])
    qed
  qed
  then show ?thesis
    unfolding leaders_marked_def live by (simp add: list_all_iff yc)
qed

lemma remarkLeader_no_hole_frame:
  assumes "None \<notin> set (proposals e)"
  shows "fst (remarkLeader e) = Inr () \<and>
         length (proposals (snd (remarkLeader e))) = length (proposals e) \<and>
         None \<notin> set (proposals (snd (remarkLeader e)))"
proof -
  from remarkLeader_no_hole [OF assms] obtain m
    where r: "remarkLeader e = (Inr (), e\<lparr>proposals :=
                map (map_option (\<lambda>p. if yesCount p = m then markLeader p else clearLeader p))
                  (proposals e)\<rparr>)"
    by blast
  show ?thesis using assms unfolding r by (auto simp del: if_split)
qed

lemma no_hole_slot:
  "None \<notin> set (proposals e) \<Longrightarrow> (slot e i = None) = (\<not> i < length (proposals e))"
proof (cases "i < length (proposals e)")
  case True
  assume "None \<notin> set (proposals e)"
  with nth_mem [OF True] have "proposals e ! i \<noteq> None" by metis
  with True show ?thesis by (simp add: slot_def)
next
  case False
  then show ?thesis by (simp add: slot_def)
qed

lemma no_hole_update: "None \<notin> set ps \<Longrightarrow> None \<notin> set (ps[i := Some p])"
  by (auto dest!: set_update_subset_insert [THEN subsetD])

lemma vote_live:
  assumes nh: "None \<notin> set (proposals e)" and c: "names_live e c"
  shows "leaders_marked 2 (exec e c) \<and> None \<notin> set (proposals (exec e c)) \<and>
         length (proposals (exec e c)) = length (proposals e)"
proof (cases c)
  case (AcceptProposal uid i)
  with c obtain p where p: "slot e i = Some p" by auto
  let ?e = "e\<lparr>invitees := set_add uid (invitees e), responses := set_add uid (responses e),
              proposals := (proposals e)[i := Some (yes uid p)]\<rparr>"
  have ex: "exec e c = snd (remarkLeader ?e)"
    using p by (simp add: AcceptProposal acceptProposal_def proposal_def Let_def)
  have "None \<notin> set (proposals ?e)" using nh by (simp add: no_hole_update)
  from remarkLeader_marks [OF this] remarkLeader_no_hole_frame [OF this]
  show ?thesis unfolding ex by simp
next
  case (RejectProposal uid i)
  with c obtain p where p: "slot e i = Some p" by auto
  let ?e = "e\<lparr>responses := set_add uid (responses e),
              proposals := (proposals e)[i := Some (no uid p)]\<rparr>"
  have ex: "exec e c = snd (remarkLeader ?e)"
    using p by (simp add: RejectProposal rejectProposal_def proposal_def Let_def)
  have "None \<notin> set (proposals ?e)" using nh by (simp add: no_hole_update)
  from remarkLeader_marks [OF this] remarkLeader_no_hole_frame [OF this]
  show ?thesis unfolding ex by simp
qed (use c in simp_all)

lemma vote_not_live:
  assumes "is_vote c" and "\<not> names_live e c"
  shows "proposals (exec e c) = proposals e"
  using assms by (cases c) (simp_all add: acceptProposal_invalid rejectProposal_invalid)

lemma leaders_marked_cong:
  "proposals e' = proposals e \<Longrightarrow> leaders_marked k e' = leaders_marked k e"
  by (simp add: leaders_marked_def live_proposals_def)

lemma names_live_cong:
  "proposals e' = proposals e \<Longrightarrow> names_live e' c = names_live e c"
  by (cases c) (simp_all add: slot_def)

lemma names_live_no_hole:
  "None \<notin> set (proposals e) \<Longrightarrow> None \<notin> set (proposals e') \<Longrightarrow>
   length (proposals e') = length (proposals e) \<Longrightarrow> names_live e' c = names_live e c"
  by (cases c) (simp_all add: no_hole_slot del: not_None_eq)

lemma votes_keep_shape:
  assumes "None \<notin> set (proposals e)" and "\<forall>c\<in>set cs. is_vote c"
  shows "None \<notin> set (proposals (run e cs)) \<and> length (proposals (run e cs)) = length (proposals e)"
  using assms(2)
proof (induction cs rule: rev_induct)
  case Nil
  then show ?case using assms(1) by (simp add: run_def)
next
  case (snoc c cs)
  then have ih: "None \<notin> set (proposals (run e cs))"
    "length (proposals (run e cs)) = length (proposals e)" by simp_all
  have r: "run e (cs @ [c]) = exec (run e cs) c" by (simp add: run_def)
  show ?case
  proof (cases "names_live (run e cs) c")
    case True
    from vote_live [OF ih(1) True] ih(2) show ?thesis unfolding r by simp
  next
    case False
    with snoc.prems have "proposals (exec (run e cs) c) = proposals (run e cs)"
      by (intro vote_not_live) simp_all
    with ih show ?thesis unfolding r by simp
  qed
qed

text \<open>
  Claim C1 says that a proposal is leading exactly when it has the most votes and that
  maximum is strictly greater than 2, so that with a maximum of 2 no proposal is
  leading. The code starts its maximum at 2 and marks the proposals that reach it: on
  an event with one proposal, after two users accepted it, the proposal has 2 votes and
  is leading.
\<close>

theorem leader_with_two_votes:
  "map (\<lambda>p. (yesCount p, isLeading p))
     (live_proposals (run (new_Event ''E'' ''n'')
        [ProposeDate (moment_tz 100 ''UTC''), AcceptProposal ''a'' 0, AcceptProposal ''b'' 0]))
     = [(2, True)]
   \<and> \<not> leaders_marked 3 (run (new_Event ''E'' ''n'')
        [ProposeDate (moment_tz 100 ''UTC''), AcceptProposal ''a'' 0, AcceptProposal ''b'' 0])"
  by code_simp

text \<open>
  Claim C1 as amended: on an event with no removed slot, after every sequence of
  \<open>acceptProposal\<close> and \<open>rejectProposal\<close> calls of which at least one names a
  live proposal (so that the leaders have been recomputed), a proposal is leading
  exactly when its \<open>yesCount()\<close> is the maximum over the proposals and that maximum
  is at least 2. Several proposals that share the maximum are all leading.
\<close>

theorem leaders_after_votes:
  assumes "None \<notin> set (proposals e)"
    and "list_all is_vote cs"
    and "list_ex (names_live e) cs"
  shows "leaders_marked 2 (run e cs)"
  using assms(2,3) unfolding list_all_iff list_ex_iff
proof (induction cs rule: rev_induct)
  case Nil
  then show ?case by simp
next
  case (snoc c cs)
  have r: "run e (cs @ [c]) = exec (run e cs) c" by (simp add: run_def)
  from snoc.prems(1) have votes: "\<forall>c\<in>set cs. is_vote c" and v: "is_vote c" by simp_all
  from votes_keep_shape [OF assms(1) votes]
  have shape: "None \<notin> set (proposals (run e cs))"
    "length (proposals (run e cs)) = length (proposals e)" by simp_all
  have nl: "names_live (run e cs) c = names_live e c"
    by (rule names_live_no_hole [OF assms(1) shape])
  show ?case
  proof (cases "names_live e c")
    case True
    with nl vote_live [OF shape(1)] show ?thesis unfolding r by simp
  next
    case False
    with snoc.prems(2) have "\<exists>c\<in>set cs. names_live e c" by auto
    from snoc.IH [OF votes this] have ih: "leaders_marked 2 (run e cs)" .
    from False nl v have "proposals (exec (run e cs) c) = proposals (run e cs)"
      by (intro vote_not_live) simp_all
    from leaders_marked_cong [OF this] ih show ?thesis unfolding r by simp
  qed
qed

theorem leaders_after_votes_witness:
  "None \<notin> set (proposals (run (new_Event ''E'' ''n'')
      [ProposeDate (moment_tz 100 ''UTC''), ProposeDate (moment_tz 200 ''UTC'')])) \<and>
   list_all is_vote
     [AcceptProposal ''a'' 0, AcceptProposal ''b'' 0, AcceptProposal ''c'' 0,
      AcceptProposal ''a'' 1, AcceptProposal ''b'' 1, AcceptProposal ''c'' 1,
      RejectProposal ''d'' 7] \<and>
   list_ex (names_live (run (new_Event ''E'' ''n'')
      [ProposeDate (moment_tz 100 ''UTC''), ProposeDate (moment_tz 200 ''UTC'')]))
     [AcceptProposal ''a'' 0, AcceptProposal ''b'' 0, AcceptProposal ''c'' 0,
      AcceptProposal ''a'' 1, AcceptProposal ''b'' 1, AcceptProposal ''c'' 1,
      RejectProposal ''d'' 7] \<and>
   leaders_marked 2 (run (run (new_Event ''E'' ''n'')
      [ProposeDate (moment_tz 100 ''UTC''), ProposeDate (moment_tz 200 ''UTC'')])
     [AcceptProposal ''a'' 0, AcceptProposal ''b'' 0, AcceptProposal ''c'' 0,
      AcceptProposal ''a'' 1, AcceptProposal ''b'' 1, AcceptProposal ''c'' 1,
      RejectProposal ''d'' 7]) \<and>
   map (\<lambda>p. (yesCount p, isLeading p)) (live_proposals (run (run (new_Event ''E'' ''n'')
      [ProposeDate (moment_tz 100 ''UTC''), ProposeDate (moment_tz 200 ''UTC'')])
     [AcceptProposal ''a'' 0, AcceptProposal ''b'' 0, AcceptProposal ''c'' 0,
      AcceptProposal ''a'' 1, AcceptProposal ''b'' 1, AcceptProposal ''c'' 1,
      RejectProposal ''d'' 7])) = [(3, True), (3, True)]"
proof -
  let ?e = "run (new_Event ''E'' ''n'')
      [ProposeDate (moment_tz 100 ''UTC''), ProposeDate (moment_tz 200 ''UTC'')]"
  let ?cs = "[AcceptProposal ''a'' 0, AcceptProposal ''b'' 0, AcceptProposal ''c'' 0,
      AcceptProposal ''a'' 1, AcceptProposal ''b'' 1, AcceptProposal ''c'' 1,
      RejectProposal ''d'' 7]"
  have h1: "None \<notin> set (proposals ?e)" by code_simp
  have h2: "list_all is_vote ?cs" by simp
  have h3: "list_ex (names_live ?e) ?cs" by code_simp
  have v: "map (\<lambda>p. (yesCount p, isLeading p)) (live_proposals (run ?e ?cs))
             = [(3, True), (3, True)]"
    by code_simp
  from h1 h2 h3 v leaders_after_votes [OF h1 h2 h3] show ?thesis by blast
qed

section \<open>The cached earliest and latest proposals\<close>

lemma date_simps [simp]:
  "date (new_Proposal t) = t" "date (yes uid p) = date p" "date (no uid p) = date p"
  "date (markLeader p) = date p" "date (clearLeader p) = date p"
  by (simp_all add: date_def new_Proposal_def yes_def no_def markLeader_def clearLeader_def)

lemma mark_loop_dates:
  "map (map_option date) (snd (mark_loop c ps)) = map (map_option date) ps"
  by (induction c ps rule: mark_loop.induct) (simp_all add: Let_def)

lemma dates_remarkLeader: "dates (snd (remarkLeader e)) = dates e"
  by (simp add: remarkLeader_def dates_def Let_def mark_loop_dates split: sum.splits option.splits)

lemma dates_update_same:
  "slot e i = Some p \<Longrightarrow> date q = date p \<Longrightarrow>
   map (map_option date) ((proposals e)[i := Some q]) = dates e"
  by (auto simp: dates_def slot_def map_update list_eq_iff_nth_eq nth_list_update split: if_splits)

lemma dates_acceptProposal: "dates (snd (acceptProposal uid i e)) = dates e"
proof (cases "slot e i")
  case None
  then show ?thesis by (simp add: acceptProposal_invalid dates_def)
next
  case (Some p)
  then show ?thesis
    using dates_update_same [OF Some, of "yes uid p"]
    by (simp add: acceptProposal_def proposal_def Let_def dates_remarkLeader) (simp add: dates_def)
qed

lemma dates_rejectProposal: "dates (snd (rejectProposal uid i e)) = dates e"
proof (cases "slot e i")
  case None
  then show ?thesis by (simp add: rejectProposal_invalid dates_def)
next
  case (Some p)
  then show ?thesis
    using dates_update_same [OF Some, of "no uid p"]
    by (simp add: rejectProposal_def proposal_def Let_def dates_remarkLeader) (simp add: dates_def)
qed

lemma vote_frame [simp]:
  "earliest (snd (acceptProposal uid i e)) = earliest e"
  "latest (snd (acceptProposal uid i e)) = latest e"
  "finalized (snd (acceptProposal uid i e)) = finalized e"
  "earliest (snd (rejectProposal uid i e)) = earliest e"
  "latest (snd (rejectProposal uid i e)) = latest e"
  "finalized (snd (rejectProposal uid i e)) = finalized e"
  by (simp_all add: acceptProposal_def rejectProposal_def Let_def split: sum.splits)

lemma dates_unpropose: "dates (unpropose i e) = (dates e)[i := None]"
  by (simp add: dates_def proposals_unpropose delete_slot_def map_update list_update_beyond)

lemma dates_proposeDate:
  "dates (snd (proposeDate t e)) = (if isFinalized e then dates e else dates e @ [Some t])"
  by (simp add: proposeDate_def dates_def Let_def split: option.splits)

lemma proposals_proposeDate:
  "proposals (snd (proposeDate t e)) =
     (if isFinalized e then proposals e else proposals e @ [Some (new_Proposal t)])"
  by (simp add: proposeDate_def Let_def split: option.splits)

lemma fst_proposeDate:
  "fst (proposeDate t e) =
     (if isFinalized e then Inl FinalizedEventError else Inr (length (proposals e)))"
  by (simp add: proposeDate_def Let_def split: option.splits)

lemma finalized_proposeDate [simp]: "finalized (snd (proposeDate t e)) = finalized e"
  by (simp add: proposeDate_def Let_def split: option.splits)

lemma earliest_proposeDate:
  "\<not> isFinalized e \<Longrightarrow>
   earliest (snd (proposeDate t e)) =
     (case earliest e of
        None \<Rightarrow> Some (length (proposals e), t)
      | Some m \<Rightarrow> if valueOf t < valueOf (snd m) then Some (length (proposals e), t) else Some m)"
  by (simp add: proposeDate_def Let_def isBefore_def ref_date_def split: option.splits)

lemma latest_proposeDate:
  "\<not> isFinalized e \<Longrightarrow>
   latest (snd (proposeDate t e)) =
     (case latest e of
        None \<Rightarrow> Some (length (proposals e), t)
      | Some m \<Rightarrow> if valueOf (snd m) < valueOf t then Some (length (proposals e), t) else Some m)"
  by (simp add: proposeDate_def Let_def isAfter_def ref_date_def split: option.splits)

lemma length_dates [simp]: "length (dates e) = length (proposals e)"
  by (simp add: dates_def)

lemma caches_ok_proposeDate:
  assumes "caches_ok e"
  shows "caches_ok (snd (proposeDate t e))"
proof (cases "isFinalized e")
  case True
  then show ?thesis using assms by (simp add: proposeDate_def)
next
  case False
  have e: "earliest_ok (earliest (snd (proposeDate t e))) (dates e @ [Some t])"
    using assms unfolding caches_ok_def earliest_ok_def earliest_proposeDate [OF False]
    by (auto simp: nth_append less_Suc_eq split: option.splits)
  have l: "latest_ok (latest (snd (proposeDate t e))) (dates e @ [Some t])"
    using assms unfolding caches_ok_def latest_ok_def latest_proposeDate [OF False]
    by (auto simp: nth_append less_Suc_eq split: option.splits)
  have f: "finalized_ok (finalized e) (dates e @ [Some t])"
    using assms unfolding caches_ok_def finalized_ok_def
    by (auto simp: nth_append split: option.splits)
  show ?thesis
    using e l f False by (simp add: caches_ok_def dates_proposeDate)
qed


lemma update_snoc_None:
  "(ds @ [d])[i := None] = ds[i := None] @ [if length ds = i then None else d]"
  by (cases "i < length ds") (auto simp: list_update_append list_update_beyond split: nat.splits)

lemma min_callback_step:
  assumes "earliest_ok r ds"
  shows "earliest_ok (min_callback i r (length ds, s))
           (ds @ [if length ds = i then None else map_option date s])"
  using assms unfolding earliest_ok_def min_callback_def
  by (auto simp: nth_append less_Suc_eq isBefore_def ref_date_def split: option.splits)

lemma max_callback_step:
  assumes "latest_ok r ds"
  shows "latest_ok (max_callback i r (length ds, s))
           (ds @ [if length ds = i then None else map_option date s])"
  using assms unfolding latest_ok_def max_callback_def
  by (auto simp: nth_append less_Suc_eq isAfter_def ref_date_def split: option.splits)

lemma fold_min_callback:
  "earliest_ok (foldl (min_callback i) None (enumerate 0 ps))
     ((map (map_option date) ps)[i := None])"
proof (induction ps rule: rev_induct)
  case Nil
  show ?case by (simp add: earliest_ok_def)
next
  case (snoc s ps)
  from min_callback_step [OF snoc.IH, of i s] show ?case
    by (simp add: enumerate_append_eq update_snoc_None)
qed

lemma fold_max_callback:
  "latest_ok (foldl (max_callback i) None (enumerate 0 ps))
     ((map (map_option date) ps)[i := None])"
proof (induction ps rule: rev_induct)
  case Nil
  show ?case by (simp add: latest_ok_def)
next
  case (snoc s ps)
  from max_callback_step [OF snoc.IH, of i s] show ?case
    by (simp add: enumerate_append_eq update_snoc_None)
qed

lemma earliest_unpropose:
  "earliest (unpropose i e) =
     (if same_object (earliest e) e i
      then foldl (min_callback i) None (enumerate 0 (proposals e)) else earliest e)"
  by (simp add: unpropose_def Let_def)

lemma latest_unpropose:
  "latest (unpropose i e) =
     (if same_object (latest e) e i
      then foldl (max_callback i) None (enumerate 0 (proposals e)) else latest e)"
  by (simp add: unpropose_def Let_def same_object_def split: option.splits)

lemma finalized_unpropose:
  "finalized (unpropose i e) = (if finalized e = Some i then None else finalized e)"
  by (simp add: unpropose_def Let_def)

lemma slot_dates: "(slot e i = None) = (i < length (dates e) \<longrightarrow> dates e ! i = None)"
  by (simp add: slot_def dates_def)

lemma earliest_ok_remove:
  assumes "earliest_ok r ds" and "\<not> (\<exists>t. r = Some (i, t) \<and> i < length ds \<and> ds ! i \<noteq> None)"
  shows "earliest_ok r (ds[i := None])"
proof (cases "i < length ds")
  case True
  with assms show ?thesis
    unfolding earliest_ok_def by (auto simp: nth_list_update split: option.splits)
next
  case False
  with assms(1) show ?thesis by (simp add: list_update_beyond)
qed

lemma latest_ok_remove:
  assumes "latest_ok r ds" and "\<not> (\<exists>t. r = Some (i, t) \<and> i < length ds \<and> ds ! i \<noteq> None)"
  shows "latest_ok r (ds[i := None])"
proof (cases "i < length ds")
  case True
  with assms show ?thesis
    unfolding latest_ok_def by (auto simp: nth_list_update split: option.splits)
next
  case False
  with assms(1) show ?thesis by (simp add: list_update_beyond)
qed

lemma same_object_dates:
  "same_object r e i = (\<exists>t. r = Some (i, t) \<and> i < length (dates e) \<and> dates e ! i \<noteq> None)"
  by (auto simp: same_object_def slot_def dates_def split: option.splits)

lemma caches_ok_unpropose:
  assumes "caches_ok e"
  shows "caches_ok (unpropose i e)"
proof -
  have e: "earliest_ok (earliest (unpropose i e)) ((dates e)[i := None])"
  proof (cases "same_object (earliest e) e i")
    case True
    then show ?thesis
      using fold_min_callback [of i "proposals e"] by (simp add: earliest_unpropose dates_def)
  next
    case False
    then have same: "earliest (unpropose i e) = earliest e" by (simp add: earliest_unpropose)
    from False have "\<not> (\<exists>t. earliest e = Some (i, t) \<and> i < length (dates e) \<and> dates e ! i \<noteq> None)"
      unfolding same_object_dates .
    from earliest_ok_remove [OF _ this] assms show ?thesis
      unfolding same by (simp add: caches_ok_def)
  qed
  have l: "latest_ok (latest (unpropose i e)) ((dates e)[i := None])"
  proof (cases "same_object (latest e) e i")
    case True
    then show ?thesis
      using fold_max_callback [of i "proposals e"] by (simp add: latest_unpropose dates_def)
  next
    case False
    then have same: "latest (unpropose i e) = latest e" by (simp add: latest_unpropose)
    from False have "\<not> (\<exists>t. latest e = Some (i, t) \<and> i < length (dates e) \<and> dates e ! i \<noteq> None)"
      unfolding same_object_dates .
    from latest_ok_remove [OF _ this] assms show ?thesis
      unfolding same by (simp add: caches_ok_def)
  qed
  have f: "finalized_ok (finalized (unpropose i e)) ((dates e)[i := None])"
    using assms unfolding caches_ok_def finalized_ok_def finalized_unpropose
    by (auto simp: nth_list_update split: option.splits if_splits)
  from e l f show ?thesis by (simp add: caches_ok_def dates_unpropose)
qed

lemma dates_simps [simp]:
  "dates (e\<lparr>invitees := a\<rparr>) = dates e"
  "dates (e\<lparr>responses := b\<rparr>) = dates e"
  "dates (e\<lparr>finalized := c\<rparr>) = dates e"
  "dates (e\<lparr>name := n\<rparr>) = dates e"
  by (simp_all add: dates_def)

lemma snd_finalize:
  "snd (finalize i e) =
     (if slot e i \<noteq> None \<and> \<not> isFinalized e then e\<lparr>finalized := Some i\<rparr> else e)"
  by (simp add: finalize_def)

lemma caches_ok_finalize:
  assumes "caches_ok e"
  shows "caches_ok (snd (finalize i e))"
proof (cases "slot e i \<noteq> None \<and> \<not> isFinalized e")
  case True
  then have "i < length (dates e) \<and> dates e ! i \<noteq> None"
    using slot_dates [of e i] by auto
  with assms True show ?thesis
    by (simp add: snd_finalize caches_ok_def finalized_ok_def)
next
  case False
  with assms show ?thesis by (simp only: snd_finalize if_False)
qed

lemma caches_ok_exec:
  assumes "caches_ok e"
  shows "caches_ok (exec e c)"
proof (cases c)
  case (ProposeDate t)
  then show ?thesis using caches_ok_proposeDate [OF assms] by simp
next
  case (Unpropose i)
  then show ?thesis using caches_ok_unpropose [OF assms] by simp
next
  case (AcceptProposal uid i)
  then show ?thesis using assms by (simp add: caches_ok_def dates_acceptProposal)
next
  case (RejectProposal uid i)
  then show ?thesis using assms by (simp add: caches_ok_def dates_rejectProposal)
next
  case (Finalize i)
  then show ?thesis using caches_ok_finalize [OF assms] by simp
next
  case Unfinalize
  then show ?thesis using assms
    by (simp add: caches_ok_def unfinalize_def finalized_ok_def)
qed (use assms in \<open>simp_all add: caches_ok_def setName_def invite_def uninvite_def
       responded_def\<close>)

lemma caches_ok_new: "caches_ok (new_Event i n)"
  by (simp add: caches_ok_def new_Event_def dates_def earliest_ok_def latest_ok_def
      finalized_ok_def)

lemma caches_ok_run: "caches_ok e \<Longrightarrow> caches_ok (run e cs)"
  unfolding run_def by (induction cs arbitrary: e) (simp_all add: caches_ok_exec)


lemma live_iff_slot: "p \<in> set (live_proposals e) \<longleftrightarrow> (\<exists>j. slot e j = Some p)"
  unfolding set_live_proposals by (auto simp: slot_def in_set_conv_nth split: if_splits)

lemma slot_Some_dates:
  "slot e j = Some p \<Longrightarrow> j < length (dates e) \<and> dates e ! j = Some (date p)"
  by (auto simp: slot_def dates_def split: if_splits)

lemma dates_Some_slot:
  "j < length (dates e) \<Longrightarrow> dates e ! j = Some d \<Longrightarrow> \<exists>p. slot e j = Some p \<and> date p = d"
  by (auto simp: slot_def dates_def)

lemma earliest_ok_live:
  assumes "earliest_ok (earliest e) (dates e)"
  shows "(live_proposals e = [] \<longrightarrow> earliest e = None) \<and>
         (live_proposals e \<noteq> [] \<longrightarrow>
            (\<exists>p \<in> set (live_proposals e). earliest e = Some (fst (the (earliest e)), date p) \<and>
               list_all (\<lambda>q. valueOf (date p) \<le> valueOf (date q)) (live_proposals e)))"
proof (cases "earliest e")
  case None
  with assms have all: "\<forall>j < length (dates e). dates e ! j = None"
    by (simp add: earliest_ok_def)
  have "p \<notin> set (live_proposals e)" for p
    using all by (auto simp: live_iff_slot dest!: slot_Some_dates)
  then have "live_proposals e = []" by (cases "live_proposals e") auto
  with None show ?thesis by simp
next
  case (Some m)
  with assms have m: "fst m < length (dates e)" "dates e ! fst m = Some (snd m)"
    and least: "\<And>j d. j < length (dates e) \<Longrightarrow> dates e ! j = Some d \<Longrightarrow>
                  valueOf (snd m) \<le> valueOf d"
    by (auto simp: earliest_ok_def)
  from dates_Some_slot [OF m] obtain p where p: "slot e (fst m) = Some p" "date p = snd m"
    by blast
  then have live: "p \<in> set (live_proposals e)" by (auto simp: live_iff_slot)
  have "valueOf (date p) \<le> valueOf (date q)" if "q \<in> set (live_proposals e)" for q
  proof -
    from that obtain j where "slot e j = Some q" by (auto simp: live_iff_slot)
    from slot_Some_dates [OF this] least [of j "date q"] show ?thesis by (simp add: p)
  qed
  then have "list_all (\<lambda>q. valueOf (date p) \<le> valueOf (date q)) (live_proposals e)"
    by (simp add: list_all_iff)
  moreover have "earliest e = Some (fst (the (earliest e)), date p)"
    by (simp add: Some p)
  ultimately show ?thesis using live by auto
qed

lemma latest_ok_live:
  assumes "latest_ok (latest e) (dates e)"
  shows "(live_proposals e = [] \<longrightarrow> latest e = None) \<and>
         (live_proposals e \<noteq> [] \<longrightarrow>
            (\<exists>p \<in> set (live_proposals e). latest e = Some (fst (the (latest e)), date p) \<and>
               list_all (\<lambda>q. valueOf (date q) \<le> valueOf (date p)) (live_proposals e)))"
proof (cases "latest e")
  case None
  with assms have all: "\<forall>j < length (dates e). dates e ! j = None"
    by (simp add: latest_ok_def)
  have "p \<notin> set (live_proposals e)" for p
    using all by (auto simp: live_iff_slot dest!: slot_Some_dates)
  then have "live_proposals e = []" by (cases "live_proposals e") auto
  with None show ?thesis by simp
next
  case (Some m)
  with assms have m: "fst m < length (dates e)" "dates e ! fst m = Some (snd m)"
    and most: "\<And>j d. j < length (dates e) \<Longrightarrow> dates e ! j = Some d \<Longrightarrow>
                  valueOf d \<le> valueOf (snd m)"
    by (auto simp: latest_ok_def)
  from dates_Some_slot [OF m] obtain p where p: "slot e (fst m) = Some p" "date p = snd m"
    by blast
  then have live: "p \<in> set (live_proposals e)" by (auto simp: live_iff_slot)
  have "valueOf (date q) \<le> valueOf (date p)" if "q \<in> set (live_proposals e)" for q
  proof -
    from that obtain j where "slot e j = Some q" by (auto simp: live_iff_slot)
    from slot_Some_dates [OF this] most [of j "date q"] show ?thesis by (simp add: p)
  qed
  then have "list_all (\<lambda>q. valueOf (date q) \<le> valueOf (date p)) (live_proposals e)"
    by (simp add: list_all_iff)
  moreover have "latest e = Some (fst (the (latest e)), date p)"
    by (simp add: Some p)
  ultimately show ?thesis using live by auto
qed

text \<open>
  The methods keep the caches right. On every event built from \<open>new Event\<close> by a
  sequence of calls (\<open>proposeDate\<close> and \<open>unpropose\<close> interleaved in any
  order, and any other method between them), while the event is not finalized
  \<open>earliestComparisonDate()\<close> and \<open>latestComparisonDate()\<close> return the
  timestamp of a live proposal that no live proposal precedes (follows), and
  \<open>null\<close> when no proposal is live; when the event is finalized both return the
  timestamp of the finalized proposal.
\<close>

theorem comparison_dates:
  assumes "e = run (new_Event i n) cs"
  shows "(\<not> isFinalized e \<and> live_proposals e = [] \<longrightarrow>
            earliestComparisonDate e = Inr None \<and> latestComparisonDate e = Inr None) \<and>
         (\<not> isFinalized e \<and> live_proposals e \<noteq> [] \<longrightarrow>
            (\<exists>p \<in> set (live_proposals e).
               earliestComparisonDate e = Inr (Some (date p)) \<and>
               list_all (\<lambda>q. valueOf (date p) \<le> valueOf (date q)) (live_proposals e)) \<and>
            (\<exists>p \<in> set (live_proposals e).
               latestComparisonDate e = Inr (Some (date p)) \<and>
               list_all (\<lambda>q. valueOf (date q) \<le> valueOf (date p)) (live_proposals e))) \<and>
         (isFinalized e \<longrightarrow>
            (\<exists>k p. finalized e = Some k \<and> slot e k = Some p \<and>
               earliestComparisonDate e = Inr (Some (date p)) \<and>
               latestComparisonDate e = Inr (Some (date p))))"
proof -
  have ok: "caches_ok e" unfolding assms by (rule caches_ok_run [OF caches_ok_new])
  then have eo: "earliest_ok (earliest e) (dates e)" and lo: "latest_ok (latest e) (dates e)"
    and fo: "finalized_ok (finalized e) (dates e)"
    by (simp_all add: caches_ok_def)
  have open_e: "earliestComparisonDate e =
                  Inr (case earliest e of None \<Rightarrow> None | Some m \<Rightarrow> Some (snd m))"
    and open_l: "latestComparisonDate e =
                  Inr (case latest e of None \<Rightarrow> None | Some m \<Rightarrow> Some (snd m))"
    if "\<not> isFinalized e"
    using that
    by (simp_all add: earliestComparisonDate_def latestComparisonDate_def ref_date_def
        split: option.splits)
  have c1: "earliestComparisonDate e = Inr None \<and> latestComparisonDate e = Inr None"
    if "\<not> isFinalized e" "live_proposals e = []"
    using earliest_ok_live [OF eo] latest_ok_live [OF lo] that
    by (simp add: open_e open_l)
  have c2: "\<exists>p \<in> set (live_proposals e).
               earliestComparisonDate e = Inr (Some (date p)) \<and>
               list_all (\<lambda>q. valueOf (date p) \<le> valueOf (date q)) (live_proposals e)"
    if "\<not> isFinalized e" "live_proposals e \<noteq> []"
  proof -
    from earliest_ok_live [OF eo] that(2) obtain p where
      p: "p \<in> set (live_proposals e)"
         "earliest e = Some (fst (the (earliest e)), date p)"
         "list_all (\<lambda>q. valueOf (date p) \<le> valueOf (date q)) (live_proposals e)"
      by blast
    have "earliestComparisonDate e = Inr (Some (date p))"
      unfolding open_e [OF that(1)] by (subst p(2)) simp
    with p show ?thesis by blast
  qed
  have c3: "\<exists>p \<in> set (live_proposals e).
               latestComparisonDate e = Inr (Some (date p)) \<and>
               list_all (\<lambda>q. valueOf (date q) \<le> valueOf (date p)) (live_proposals e)"
    if "\<not> isFinalized e" "live_proposals e \<noteq> []"
  proof -
    from latest_ok_live [OF lo] that(2) obtain p where
      p: "p \<in> set (live_proposals e)"
         "latest e = Some (fst (the (latest e)), date p)"
         "list_all (\<lambda>q. valueOf (date q) \<le> valueOf (date p)) (live_proposals e)"
      by blast
    have "latestComparisonDate e = Inr (Some (date p))"
      unfolding open_l [OF that(1)] by (subst p(2)) simp
    with p show ?thesis by blast
  qed
  have c4: "\<exists>k p. finalized e = Some k \<and> slot e k = Some p \<and>
               earliestComparisonDate e = Inr (Some (date p)) \<and>
               latestComparisonDate e = Inr (Some (date p))"
    if "isFinalized e"
  proof -
    from that obtain k where k: "finalized e = Some k" by (auto simp: isFinalized_def)
    with fo have "k < length (dates e)" "dates e ! k \<noteq> None"
      by (simp_all add: finalized_ok_def)
    then obtain d where "dates e ! k = Some d" by auto
    from dates_Some_slot [OF \<open>k < length (dates e)\<close> this] obtain p
      where p: "slot e k = Some p" by blast
    have "earliestComparisonDate e = Inr (Some (date p))"
      "latestComparisonDate e = Inr (Some (date p))"
      using that k p
      by (simp_all add: earliestComparisonDate_def latestComparisonDate_def finalProposal_def
          proposal_def)
    with k p show ?thesis by blast
  qed
  from c1 c2 c3 c4 show ?thesis by blast
qed


theorem comparison_dates_witness:
  "\<not> isFinalized (run (new_Event ''E'' ''n'')
      [ProposeDate (moment_tz 200 ''UTC''), ProposeDate (moment_tz 100 ''UTC''),
       ProposeDate (moment_tz 300 ''UTC''), Unpropose 1, Unpropose 2]) \<and>
   map date (live_proposals (run (new_Event ''E'' ''n'')
      [ProposeDate (moment_tz 200 ''UTC''), ProposeDate (moment_tz 100 ''UTC''),
       ProposeDate (moment_tz 300 ''UTC''), Unpropose 1, Unpropose 2]))
     = [moment_tz 200 ''UTC''] \<and>
   earliestComparisonDate (run (new_Event ''E'' ''n'')
      [ProposeDate (moment_tz 200 ''UTC''), ProposeDate (moment_tz 100 ''UTC''),
       ProposeDate (moment_tz 300 ''UTC''), Unpropose 1, Unpropose 2])
     = Inr (Some (moment_tz 200 ''UTC'')) \<and>
   latestComparisonDate (run (new_Event ''E'' ''n'')
      [ProposeDate (moment_tz 200 ''UTC''), ProposeDate (moment_tz 100 ''UTC''),
       ProposeDate (moment_tz 300 ''UTC''), Unpropose 1, Unpropose 2])
     = Inr (Some (moment_tz 200 ''UTC''))"
proof -
  let ?e = "run (new_Event ''E'' ''n'')
      [ProposeDate (moment_tz 200 ''UTC''), ProposeDate (moment_tz 100 ''UTC''),
       ProposeDate (moment_tz 300 ''UTC''), Unpropose 1, Unpropose 2]"
  have open_e: "\<not> isFinalized ?e" by code_simp
  have live: "map date (live_proposals ?e) = [moment_tz 200 ''UTC'']" by code_simp
  then have ne: "live_proposals ?e \<noteq> []" by auto
  from comparison_dates [OF refl, of "''E''" "''n''"
      "[ProposeDate (moment_tz 200 ''UTC''), ProposeDate (moment_tz 100 ''UTC''),
        ProposeDate (moment_tz 300 ''UTC''), Unpropose 1, Unpropose 2]"] open_e ne
  obtain p q where p: "p \<in> set (live_proposals ?e)"
      "earliestComparisonDate ?e = Inr (Some (date p))"
    and q: "q \<in> set (live_proposals ?e)" "latestComparisonDate ?e = Inr (Some (date q))"
    by blast
  from p(1) q(1) live have "date p = moment_tz 200 ''UTC''" "date q = moment_tz 200 ''UTC''"
    by (auto simp: map_eq_Cons_conv)
  with p q open_e live show ?thesis by simp
qed

text \<open>
  Claim C5 says that on every unfinalized event \<open>earliestComparisonDate()\<close> and
  \<open>latestComparisonDate()\<close> are the least and the greatest timestamp of the live
  proposals. \<open>Event.deserialize\<close> rebuilds the proposals and leaves
  \<open>earliest\<close> and \<open>latest\<close> at \<open>null\<close>: the event read back from
  the payload of an event with one proposal, at instant 100, is not finalized, has that
  proposal live, and both dates are \<open>null\<close>; after \<open>proposeDate\<close> at
  instant 250 on it the earliest date is 250, with the proposal at 100 still live.
\<close>

theorem deserialized_event_comparison_dates:
  "map date (live_proposals (deserialize (serialize
       (run (new_Event ''E'' ''n'') [ProposeDate (moment_tz 100 ''UTC'')]))))
     = [moment_tz 100 ''UTC''] \<and>
   isFinalized (deserialize (serialize
       (run (new_Event ''E'' ''n'') [ProposeDate (moment_tz 100 ''UTC'')]))) = False \<and>
   earliestComparisonDate (deserialize (serialize
       (run (new_Event ''E'' ''n'') [ProposeDate (moment_tz 100 ''UTC'')]))) = Inr None \<and>
   latestComparisonDate (deserialize (serialize
       (run (new_Event ''E'' ''n'') [ProposeDate (moment_tz 100 ''UTC'')]))) = Inr None \<and>
   map date (live_proposals (run (deserialize (serialize
       (run (new_Event ''E'' ''n'') [ProposeDate (moment_tz 100 ''UTC'')])))
       [ProposeDate (moment_tz 250 ''UTC'')]))
     = [moment_tz 100 ''UTC'', moment_tz 250 ''UTC''] \<and>
   earliestComparisonDate (run (deserialize (serialize
       (run (new_Event ''E'' ''n'') [ProposeDate (moment_tz 100 ''UTC'')])))
       [ProposeDate (moment_tz 250 ''UTC'')])
     = Inr (Some (moment_tz 250 ''UTC''))"
  by code_simp

section \<open>Indices of removed proposals\<close>


lemma dates_exec_hole:
  assumes "j < length (dates e)" and "dates e ! j = None"
  shows "j < length (dates (exec e c)) \<and> dates (exec e c) ! j = None"
proof (cases c)
  case (ProposeDate t)
  with assms show ?thesis by (simp add: dates_proposeDate nth_append del: length_dates)
next
  case (Unpropose i)
  with assms show ?thesis
    by (cases "i < length (dates e)")
      (simp_all add: dates_unpropose nth_list_update list_update_beyond del: length_dates)
next
  case (AcceptProposal uid i)
  with assms show ?thesis by (simp add: dates_acceptProposal del: length_dates)
next
  case (RejectProposal uid i)
  with assms show ?thesis by (simp add: dates_rejectProposal del: length_dates)
next
  case (Finalize i)
  with assms show ?thesis by (simp add: snd_finalize del: length_dates)
qed (use assms in \<open>simp_all add: setName_def invite_def uninvite_def responded_def
       unfinalize_def del: length_dates\<close>)

lemma dates_run_hole:
  "j < length (dates e) \<Longrightarrow> dates e ! j = None \<Longrightarrow>
   j < length (dates (run e cs)) \<and> dates (run e cs) ! j = None"
  unfolding run_def
proof (induction cs arbitrary: e)
  case Nil
  then show ?case by simp
next
  case (Cons c cs)
  from dates_exec_hole [OF Cons.prems, of c] Cons.IH [of "exec e c"] show ?case by simp
qed

lemma proposal_unpropose: "proposal (unpropose i e) i = Inl InvalidProposalError"
  by (simp add: proposal_def slot_unpropose)

text \<open>
  Claim C7 says, for every index \<open>i\<close>, that after \<open>unpropose(i)\<close> every later
  \<open>proposal(i)\<close> fails and no later \<open>proposeDate\<close> returns \<open>i\<close>. For
  an index that no \<open>proposeDate\<close> has handed out yet there is no slot to remove:
  on a new event \<open>unpropose(0)\<close> changes nothing, the next \<open>proposeDate\<close>
  returns 0 and \<open>proposal(0)\<close> then succeeds.
\<close>

theorem unpropose_unassigned_index:
  "fst (proposeDate (moment_tz 100 ''UTC'') (unpropose 0 (new_Event ''E'' ''n''))) = Inr 0 \<and>
   proposal (run (unpropose 0 (new_Event ''E'' ''n'')) [ProposeDate (moment_tz 100 ''UTC'')]) 0
     = Inr (new_Proposal (moment_tz 100 ''UTC''))"
  by code_simp

text \<open>
  Claim C7 as amended. For every index, \<open>proposal(i)\<close> right after
  \<open>unpropose(i)\<close> fails with the invalid proposal error. For an index below the
  length of the array (one that \<open>proposeDate\<close> has handed out), whatever calls
  \<open>cs\<close> follow \<open>unpropose(i)\<close>, \<open>proposal(i)\<close> still fails with that
  error and \<open>proposeDate\<close> does not return \<open>i\<close>. On an unfinalized event
  \<open>proposeDate\<close> returns the length of the array and makes it one longer, so
  indices are handed out in insertion order. If \<open>i\<close> was the finalized index,
  \<open>unpropose(i)\<close> clears \<open>finalized\<close> and \<open>finalProposal()\<close> fails
  with the not-finalized error.
\<close>

theorem unpropose_retires_index:
  "proposal (unpropose i e) i = Inl InvalidProposalError \<and>
   (i < length (proposals e) \<longrightarrow>
      proposal (run (unpropose i e) cs) i = Inl InvalidProposalError \<and>
      fst (proposeDate t (run (unpropose i e) cs)) \<noteq> Inr i) \<and>
   (\<not> isFinalized e \<longrightarrow>
      fst (proposeDate t e) = Inr (length (proposals e)) \<and>
      length (proposals (snd (proposeDate t e))) = Suc (length (proposals e))) \<and>
   (finalized e = Some i \<longrightarrow>
      finalized (unpropose i e) = None \<and>
      finalProposal (unpropose i e) = Inl UnfinalizedEventError)"
proof -
  have a: "proposal (run (unpropose i e) cs) i = Inl InvalidProposalError \<and>
           fst (proposeDate t (run (unpropose i e) cs)) \<noteq> Inr i"
    if "i < length (proposals e)"
  proof -
    from that have "i < length (dates (unpropose i e))" "dates (unpropose i e) ! i = None"
      by (simp_all add: dates_unpropose)
    from dates_run_hole [OF this, of cs]
    have h: "i < length (proposals (run (unpropose i e) cs))"
      "dates (run (unpropose i e) cs) ! i = None" by simp_all
    then have "slot (run (unpropose i e) cs) i = None" by (simp add: slot_dates)
    with h(1) show ?thesis by (simp add: proposal_def fst_proposeDate)
  qed
  have b: "fst (proposeDate t e) = Inr (length (proposals e)) \<and>
           length (proposals (snd (proposeDate t e))) = Suc (length (proposals e))"
    if "\<not> isFinalized e"
    using that by (simp add: fst_proposeDate proposals_proposeDate)
  have c: "finalized (unpropose i e) = None \<and>
           finalProposal (unpropose i e) = Inl UnfinalizedEventError"
    if "finalized e = Some i"
    using that by (simp add: finalized_unpropose finalProposal_def)
  from a b c proposal_unpropose show ?thesis by blast
qed

theorem unpropose_retires_index_witness:
  "proposal (run (unpropose 0 (run (new_Event ''E'' ''n'')
       [ProposeDate (moment_tz 100 ''UTC''), ProposeDate (moment_tz 200 ''UTC''), Finalize 0]))
       [ProposeDate (moment_tz 300 ''UTC''), AcceptProposal ''a'' 0]) 0
     = Inl InvalidProposalError \<and>
   fst (proposeDate (moment_tz 400 ''UTC'') (run (unpropose 0 (run (new_Event ''E'' ''n'')
       [ProposeDate (moment_tz 100 ''UTC''), ProposeDate (moment_tz 200 ''UTC''), Finalize 0]))
       [ProposeDate (moment_tz 300 ''UTC''), AcceptProposal ''a'' 0])) = Inr 3 \<and>
   finalProposal (unpropose 0 (run (new_Event ''E'' ''n'')
       [ProposeDate (moment_tz 100 ''UTC''), ProposeDate (moment_tz 200 ''UTC''), Finalize 0]))
     = Inl UnfinalizedEventError"
proof -
  let ?e = "run (new_Event ''E'' ''n'')
       [ProposeDate (moment_tz 100 ''UTC''), ProposeDate (moment_tz 200 ''UTC''), Finalize 0]"
  let ?cs = "[ProposeDate (moment_tz 300 ''UTC''), AcceptProposal ''a'' 0]"
  have h1: "0 < length (proposals ?e)" by code_simp
  have h2: "finalized ?e = Some 0" by code_simp
  have v: "fst (proposeDate (moment_tz 400 ''UTC'') (run (unpropose 0 ?e) ?cs)) = Inr 3"
    by code_simp
  from unpropose_retires_index [of 0 ?e ?cs "moment_tz 400 ''UTC''"] h1 h2 v
  show ?thesis by blast
qed

section \<open>Voting on a finalized event\<close>



lemma set_set_add [simp]: "set (set_add x s) = insert x (set s)"
  by (auto simp: set_add_def)

lemma set_set_delete [simp]: "set (set_delete x s) = set s - {x}"
  by (auto simp: set_delete_def)








lemma isLeading_yes_no [simp]:
  "isLeading (yes uid p) = isLeading p" "isLeading (no uid p) = isLeading p"
  by (simp_all add: isLeading_def yes_def no_def)







end
